theory Spec2Isabelle
  imports Main "HOL-Library.Word"
begin

section \<open>JavaScript values\<close>

text \<open>
  A JavaScript string is a sequence of UTF-16 code units, and \<open>length\<close>, \<open>slice\<close> and
  \<open>===\<close> work on code units. \<open>str\<close> embeds an ASCII literal.
\<close>

type_synonym jsstring = "16 word list"

definition str :: "string \<Rightarrow> jsstring" where
  "str s = map (\<lambda>c. of_nat (of_char c)) s"

text \<open>
  The values the flattener meets are the ones \<open>JSON.parse\<close> and \<open>jsondiffpatch\<close> build,
  plus \<open>undefined\<close> for an absent field. Numbers are the integers. An object is the list of
  its own enumerable properties in the order \<open>Object.keys\<close> reports them; a JavaScript
  object never has two properties with one key (\<open>distinct_keys\<close>).
\<close>

datatype jsval =
    JUndefined
  | JNull
  | JBool bool
  | JNum int
  | JStr jsstring
  | JArr "jsval list"
  | JObj "(jsstring \<times> jsval) list"

fun truthy :: "jsval \<Rightarrow> bool" where
  "truthy JUndefined = False"
| "truthy JNull = False"
| "truthy (JBool b) = b"
| "truthy (JNum n) = (n \<noteq> 0)"
| "truthy (JStr s) = (s \<noteq> [])"
| "truthy (JArr xs) = True"
| "truthy (JObj kvs) = True"

fun typeof_object :: "jsval \<Rightarrow> bool" where
  "typeof_object JNull = True"
| "typeof_object (JArr xs) = True"
| "typeof_object (JObj kvs) = True"
| "typeof_object v = False"

fun Array_isArray :: "jsval \<Rightarrow> bool" where
  "Array_isArray (JArr xs) = True"
| "Array_isArray v = False"

fun Object_keys :: "jsval \<Rightarrow> jsstring list" where
  "Object_keys (JObj kvs) = map fst kvs"
| "Object_keys v = []"

text \<open>\<open>get_prop d k\<close> is \<open>d[k]\<close> on an object; a missing property reads as \<open>undefined\<close>.\<close>

fun get_prop :: "jsval \<Rightarrow> jsstring \<Rightarrow> jsval" where
  "get_prop (JObj kvs) k = (case map_of kvs k of Some v \<Rightarrow> v | None \<Rightarrow> JUndefined)"
| "get_prop v k = JUndefined"

fun arr_length :: "jsval \<Rightarrow> nat" where
  "arr_length (JArr xs) = length xs"
| "arr_length v = 0"

text \<open>\<open>at e i\<close> is \<open>e[i]\<close> on an array; an index out of range reads as \<open>undefined\<close>.\<close>

fun at :: "jsval \<Rightarrow> nat \<Rightarrow> jsval" where
  "at (JArr xs) i = (if i < length xs then xs ! i else JUndefined)"
| "at v i = JUndefined"

fun distinct_keys :: "jsval \<Rightarrow> bool" where
  "distinct_keys (JObj kvs) = (distinct (map fst kvs) \<and> list_all (\<lambda>kv. distinct_keys (snd kv)) kvs)"
| "distinct_keys (JArr xs) = list_all distinct_keys xs"
| "distinct_keys v = True"

text \<open>A JSON value holds no \<open>undefined\<close> anywhere.\<close>

fun is_json :: "jsval \<Rightarrow> bool" where
  "is_json JUndefined = False"
| "is_json (JArr xs) = list_all is_json xs"
| "is_json (JObj kvs) = list_all (\<lambda>kv. is_json (snd kv)) kvs"
| "is_json v = True"

section \<open>diffFlatten.js\<close>

text \<open>\<^verbatim>\<open>function isObject(x) { return x && typeof x === 'object' && !Array.isArray(x); }\<close>\<close>

definition isObject :: "jsval \<Rightarrow> bool" where
  "isObject x = (truthy x \<and> typeof_object x \<and> \<not> Array_isArray x)"

text \<open>
  \<^verbatim>\<open>function clone(v) { try { return JSON.parse(JSON.stringify(v)); } catch { return v; } }\<close>

  On a tree of values the serialization round trip is \<open>jsonify\<close>: an \<open>undefined\<close> array
  element comes back as \<open>null\<close> and a property whose value is \<open>undefined\<close> is dropped.
  \<open>JSON.stringify(undefined)\<close> is \<open>undefined\<close>, which \<open>JSON.parse\<close> rejects with a
  SyntaxError: the round trip has no result (\<open>None\<close>) and \<open>clone\<close> takes its catch branch.
\<close>

fun jsonify :: "jsval \<Rightarrow> jsval" where
  "jsonify JUndefined = JNull"
| "jsonify (JArr xs) = JArr (map jsonify xs)"
| "jsonify (JObj kvs) =
     JObj (map (\<lambda>kv. (fst kv, jsonify (snd kv))) (filter (\<lambda>kv. snd kv \<noteq> JUndefined) kvs))"
| "jsonify v = v"

definition JSON_roundtrip :: "jsval \<Rightarrow> jsval option" where
  "JSON_roundtrip v = (if v = JUndefined then None else Some (jsonify v))"

definition clone :: "jsval \<Rightarrow> jsval" where
  "clone v = (case JSON_roundtrip v of Some w \<Rightarrow> w | None \<Rightarrow> v)"

text \<open>\<open>pathArr.join('.')\<close>\<close>

fun join_dot :: "jsstring list \<Rightarrow> jsstring" where
  "join_dot [] = []"
| "join_dot [s] = s"
| "join_dot (s # t # ss) = s @ 0x2E # join_dot (t # ss)"

record change =
  path :: jsstring
  before :: jsval
  after :: jsval

text \<open>
  \<^verbatim>\<open>rows.push({ path: pathArr.join('.'), before: clone(before), after: clone(after) })\<close>

  The shared array \<open>rows\<close> is passed in and returned.
\<close>

definition pushChange :: "change list \<Rightarrow> jsstring list \<Rightarrow> jsval \<Rightarrow> jsval \<Rightarrow> change list" where
  "pushChange rows pathArr before_v after_v =
     rows @ [\<lparr>path = join_dot pathArr, before = clone before_v, after = clone after_v\<rparr>]"

text \<open>\<open>key.replace(/^_/, '')\<close>\<close>

fun replace_leading_underscore :: "jsstring \<Rightarrow> jsstring" where
  "replace_leading_underscore [] = []"
| "replace_leading_underscore (c # cs) = (if c = 0x5F then cs else c # cs)"

text \<open>
  \<open>walkDelta\<close> with the bodies of its two loops: \<open>arrayEntry\<close> is the callback of the
  \<open>forEach\<close> of the array-delta branch, \<open>objectEntry\<close> the body of the \<open>for ... of\<close> loop.
\<close>

function walkDelta :: "jsval \<Rightarrow> jsstring list \<Rightarrow> change list \<Rightarrow> change list"
  and arrayEntry :: "jsval \<Rightarrow> jsstring list \<Rightarrow> jsstring \<Rightarrow> change list \<Rightarrow> change list"
  and objectEntry :: "jsval \<Rightarrow> jsstring list \<Rightarrow> jsstring \<Rightarrow> change list \<Rightarrow> change list"
where
  "walkDelta delta pathArr rows =
     (if \<not> isObject delta then rows
      else if get_prop delta (str ''_t'') = JStr (str ''a'')
      then fold (\<lambda>key rs. arrayEntry delta pathArr key rs) (Object_keys delta) rows
      else fold (\<lambda>key rs. objectEntry delta pathArr key rs) (Object_keys delta) rows)"
| "arrayEntry delta pathArr key rows =
     (if key = str ''_t'' then rows
      else let entry = get_prop delta key; idx = replace_leading_underscore key in
        if Array_isArray entry then
          (if arr_length entry = 1
             then pushChange rows (pathArr @ [idx]) JUndefined (at entry 0)
           else if arr_length entry = 2
             then pushChange rows (pathArr @ [idx]) (at entry 0) (at entry 1)
           else if arr_length entry \<ge> 3 then
             (if at entry 1 = JNum 0 \<and> at entry 2 = JNum 0
                then pushChange rows (pathArr @ [idx]) (at entry 0) JUndefined
              else rows)
           else rows)
        else if isObject entry then walkDelta entry (pathArr @ [idx]) rows
        else rows)"
| "objectEntry delta pathArr key rows =
     (let val = get_prop delta key in
      if key = str ''_t'' then rows
      else if Array_isArray val then
          (if arr_length val = 2
             then pushChange rows (pathArr @ [key]) (at val 0) (at val 1)
           else if arr_length val = 1
             then pushChange rows (pathArr @ [key]) JUndefined (at val 0)
           else if arr_length val \<ge> 3 then
             (if at val 1 = JNum 0 \<and> at val 2 = JNum 0
                then pushChange rows (pathArr @ [key]) (at val 0) JUndefined
              else pushChange rows (pathArr @ [key]) (at val 0) (at val 1))
           else rows)
        else if isObject val then walkDelta val (pathArr @ [key]) rows
        else rows)"
  by pat_completeness auto
termination
proof -
  have lookup: "size v < Suc (size_list (size_prod (\<lambda>x. 0) size) kvs)"
    if "map_of kvs k = Some v" for kvs :: "(jsstring \<times> jsval) list" and k v
    using that by (induction kvs) (auto split: if_splits)
  have smaller: "size (get_prop d k) < size d" if "isObject (get_prop d k)" for d k
    using that by (cases d) (auto simp: isObject_def lookup split: option.splits)
  show ?thesis
    by (relation "measures
          [\<lambda>x. case x of Inl (d, _) \<Rightarrow> size d
                 | Inr (Inl (d, _)) \<Rightarrow> size d
                 | Inr (Inr (d, _)) \<Rightarrow> size d,
           \<lambda>x. case x of Inl _ \<Rightarrow> 1 | Inr _ \<Rightarrow> 0]")
       (auto simp: smaller)
qed

text \<open>
  \<^verbatim>\<open>function flattenJsonDiff(delta) { const rows = []; walkDelta(delta || {}, [], rows); return rows; }\<close>
\<close>

definition flattenJsonDiff :: "jsval \<Rightarrow> change list" where
  "flattenJsonDiff delta = walkDelta (if truthy delta then delta else JObj []) [] []"

text \<open>
  Two tests on a delta node used to state what decides its decoding: whether a key is
  present, and whether two nodes have the same keys and the same value under every key
  other than the marker key \<open>_t\<close>.
\<close>

definition has_key :: "jsval \<Rightarrow> jsstring \<Rightarrow> bool" where
  "has_key d k = (k \<in> set (Object_keys d))"

definition same_except_marker :: "jsval \<Rightarrow> jsval \<Rightarrow> bool" where
  "same_except_marker d1 d2 =
     (Object_keys d1 = Object_keys d2 \<and>
      list_all (\<lambda>k. k = str ''_t'' \<or> get_prop d1 k = get_prop d2 k) (Object_keys d1))"

section \<open>pdfGenerator.js: the second flattener\<close>

text \<open>
  \<open>flattenDelta\<close> is the flattener nested in the PDF generator. Its inner \<open>isObj\<close>
  repeats \<open>isObject\<close>; its \<open>walk\<close> pushes the values themselves (no \<open>clone\<close>);
  \<open>walk_array_entry\<close> and \<open>walk_object_entry\<close> are the bodies of its two loops.
  \<open>path_arr\<close> is the parameter \<open>path\<close> of \<open>walk\<close>.
\<close>

definition isObj :: "jsval \<Rightarrow> bool" where
  "isObj x = (truthy x \<and> typeof_object x \<and> \<not> Array_isArray x)"

function walk :: "jsval \<Rightarrow> jsstring list \<Rightarrow> change list \<Rightarrow> change list"
  and walk_array_entry :: "jsval \<Rightarrow> jsstring list \<Rightarrow> jsstring \<Rightarrow> change list \<Rightarrow> change list"
  and walk_object_entry :: "jsval \<Rightarrow> jsstring list \<Rightarrow> jsstring \<Rightarrow> change list \<Rightarrow> change list"
where
  "walk d path_arr rows =
     (if \<not> isObj d then rows
      else if get_prop d (str ''_t'') = JStr (str ''a'')
      then fold (\<lambda>k rs. walk_array_entry d path_arr k rs) (Object_keys d) rows
      else fold (\<lambda>key rs. walk_object_entry d path_arr key rs) (Object_keys d) rows)"
| "walk_array_entry d path_arr k rows =
     (if k = str ''_t'' then rows
      else let entry = get_prop d k; idx = replace_leading_underscore k in
        if Array_isArray entry then
          (if arr_length entry = 1
             then rows @ [\<lparr>path = join_dot (path_arr @ [idx]), before = JUndefined, after = at entry 0\<rparr>]
           else if arr_length entry = 2
             then rows @ [\<lparr>path = join_dot (path_arr @ [idx]), before = at entry 0, after = at entry 1\<rparr>]
           else if arr_length entry \<ge> 3 \<and> at entry 1 = JNum 0 \<and> at entry 2 = JNum 0
             then rows @ [\<lparr>path = join_dot (path_arr @ [idx]), before = at entry 0, after = JUndefined\<rparr>]
           else rows)
        else if isObj entry then walk entry (path_arr @ [idx]) rows
        else rows)"
| "walk_object_entry d path_arr key rows =
     (if key = str ''_t'' then rows
      else let val = get_prop d key in
        if Array_isArray val then
          (if arr_length val = 2
             then rows @ [\<lparr>path = join_dot (path_arr @ [key]), before = at val 0, after = at val 1\<rparr>]
           else if arr_length val = 1
             then rows @ [\<lparr>path = join_dot (path_arr @ [key]), before = JUndefined, after = at val 0\<rparr>]
           else if arr_length val \<ge> 3 \<and> at val 1 = JNum 0 \<and> at val 2 = JNum 0
             then rows @ [\<lparr>path = join_dot (path_arr @ [key]), before = at val 0, after = JUndefined\<rparr>]
           else rows)
        else if isObj val then walk val (path_arr @ [key]) rows
        else rows)"
  by pat_completeness auto
termination
proof -
  have lookup: "size v < Suc (size_list (size_prod (\<lambda>x. 0) size) kvs)"
    if "map_of kvs k = Some v" for kvs :: "(jsstring \<times> jsval) list" and k v
    using that by (induction kvs) (auto split: if_splits)
  have smaller: "size (get_prop d k) < size d" if "isObj (get_prop d k)" for d k
    using that by (cases d) (auto simp: isObj_def lookup split: option.splits)
  show ?thesis
    by (relation "measures
          [\<lambda>x. case x of Inl (d, _) \<Rightarrow> size d
                 | Inr (Inl (d, _)) \<Rightarrow> size d
                 | Inr (Inr (d, _)) \<Rightarrow> size d,
           \<lambda>x. case x of Inl _ \<Rightarrow> 1 | Inr _ \<Rightarrow> 0]")
       (auto simp: smaller)
qed

definition flattenDelta :: "jsval \<Rightarrow> change list" where
  "flattenDelta delta = walk (if truthy delta then delta else JObj []) [] []"

text \<open>
  \<open>sentinel_only d\<close>: every array of three or more elements that is the value of a key in
  the delta carries the removal sentinel, so that no walk takes the fallback branch.
\<close>

fun sentinel_only :: "jsval \<Rightarrow> bool" where
  "sentinel_only (JObj kvs) = list_all (\<lambda>kv. sentinel_only (snd kv)) kvs"
| "sentinel_only (JArr xs) = (3 \<le> length xs \<longrightarrow> xs ! 1 = JNum 0 \<and> xs ! 2 = JNum 0)"
| "sentinel_only v = True"

section \<open>JSON.stringify\<close>

text \<open>
  The text \<open>JSON.stringify(v)\<close> returns without an indent argument; \<open>None\<close> is the
  result \<open>undefined\<close>. Integers print in decimal. A string is quoted with the escapes of
  the language standard: the quote, the backslash, the control characters and lone surrogates.
\<close>

definition digit_unit :: "nat \<Rightarrow> 16 word" where
  "digit_unit n = of_nat (48 + n)"

fun dec_digits :: "nat \<Rightarrow> jsstring" where
  "dec_digits n = (if n < 10 then [digit_unit n] else dec_digits (n div 10) @ [digit_unit (n mod 10)])"

definition number_to_string :: "int \<Rightarrow> jsstring" where
  "number_to_string i = (if i < 0 then 0x2D # dec_digits (nat (- i)) else dec_digits (nat i))"

definition hex_unit :: "nat \<Rightarrow> 16 word" where
  "hex_unit n = (if n < 10 then of_nat (48 + n) else of_nat (87 + n))"

definition u_escape :: "16 word \<Rightarrow> jsstring" where
  "u_escape c = [0x5C, 0x75, hex_unit (unat c div 4096), hex_unit (unat c div 256 mod 16),
                 hex_unit (unat c div 16 mod 16), hex_unit (unat c mod 16)]"

definition is_high_surrogate :: "16 word \<Rightarrow> bool" where
  "is_high_surrogate c = (0xD800 \<le> c \<and> c \<le> 0xDBFF)"

definition is_low_surrogate :: "16 word \<Rightarrow> bool" where
  "is_low_surrogate c = (0xDC00 \<le> c \<and> c \<le> 0xDFFF)"

fun quote_units :: "jsstring \<Rightarrow> jsstring" where
  "quote_units [] = []"
| "quote_units (c # cs) =
     (if c = 0x22 then [0x5C, 0x22] @ quote_units cs
      else if c = 0x5C then [0x5C, 0x5C] @ quote_units cs
      else if c = 0x08 then [0x5C, 0x62] @ quote_units cs
      else if c = 0x0C then [0x5C, 0x66] @ quote_units cs
      else if c = 0x0A then [0x5C, 0x6E] @ quote_units cs
      else if c = 0x0D then [0x5C, 0x72] @ quote_units cs
      else if c = 0x09 then [0x5C, 0x74] @ quote_units cs
      else if c < 0x20 then u_escape c @ quote_units cs
      else if is_high_surrogate c then
        (case cs of
           [] \<Rightarrow> u_escape c
         | d # ds \<Rightarrow> if is_low_surrogate d then c # d # quote_units ds
                     else u_escape c @ quote_units cs)
      else if is_low_surrogate c then u_escape c @ quote_units cs
      else c # quote_units cs)"

definition quote :: "jsstring \<Rightarrow> jsstring" where
  "quote s = 0x22 # quote_units s @ [0x22]"

fun join_comma :: "jsstring list \<Rightarrow> jsstring" where
  "join_comma [] = []"
| "join_comma [s] = s"
| "join_comma (s # t # ss) = s @ 0x2C # join_comma (t # ss)"

fun stringify :: "jsval \<Rightarrow> jsstring option" where
  "stringify JUndefined = None"
| "stringify JNull = Some (str ''null'')"
| "stringify (JBool b) = Some (if b then str ''true'' else str ''false'')"
| "stringify (JNum n) = Some (number_to_string n)"
| "stringify (JStr s) = Some (quote s)"
| "stringify (JArr xs) =
     Some (0x5B # join_comma (map (\<lambda>x. case stringify x of None \<Rightarrow> str ''null'' | Some t \<Rightarrow> t) xs)
           @ [0x5D])"
| "stringify (JObj kvs) =
     Some (0x7B # join_comma (concat (map (\<lambda>kv. case stringify (snd kv) of None \<Rightarrow> []
                                            | Some t \<Rightarrow> [quote (fst kv) @ 0x3A # t]) kvs))
           @ [0x7D])"

definition JSON_stringify :: "jsval \<Rightarrow> jsval" where
  "JSON_stringify v = (case stringify v of None \<Rightarrow> JUndefined | Some t \<Rightarrow> JStr t)"

section \<open>index.js: the table builders\<close>

record table =
  name :: jsstring
  columns :: "jsstring list"
  rows :: "jsval list list"









text \<open>
  The handler of \<open>/api/template/upload\<close>, from the parsed upload \<open>json\<close> on (\<open>null\<close> when
  the text is not JSON). Case 1 and case 3 hand the upload to the external service.
\<close>

fun Object_values :: "jsval \<Rightarrow> jsval list" where
  "Object_values (JObj kvs) = map snd kvs"
| "Object_values (JArr xs) = xs"
| "Object_values v = []"

function isDelta :: "jsval \<Rightarrow> bool" where
  "isDelta obj =
     (if \<not> truthy obj \<or> \<not> typeof_object obj then False
      else if get_prop obj (str ''_t'') = JStr (str ''a'') then True
      else list_ex (\<lambda>v. Array_isArray v \<or> (truthy v \<and> typeof_object v \<and> isDelta v))
             (Object_values obj))"
  by pat_completeness auto
termination
proof -
  have "size v < size obj" if "v \<in> set (Object_values obj)" for v obj
  proof (cases obj)
    case (JArr xs)
    with that show ?thesis by (auto simp: less_Suc_eq_le size_list_estimation')
  next
    case (JObj kvs)
    with that obtain k where "(k, v) \<in> set kvs" by auto
    then have "size v \<le> size_list (size_prod (\<lambda>x. 0) size) kvs"
      by (induction kvs) auto
    with JObj show ?thesis by simp
  qed (use that in simp_all)
  then show ?thesis
    by (relation "measure size") auto
qed

definition added_only_table :: "jsval \<Rightarrow> table" where
  "added_only_table json =
     (let flat = flattenJsonDiff (if truthy json then json else JObj []);
          additions = filter (\<lambda>r. before r = JUndefined) flat;
          cols = [str ''Path'', str ''New Value''];
          rs = map (\<lambda>r. [JStr (path r), JSON_stringify (after r)]) additions
      in \<lparr>name = str ''Added'', columns = cols, rows = rs\<rparr>)"

datatype upload_result = TemplateToService | AddedEntries table | TextToService

definition template_upload :: "jsval \<Rightarrow> upload_result" where
  "template_upload json =
     (if truthy json \<and> typeof_object json \<and> \<not> isDelta json then TemplateToService
      else if truthy json \<and> typeof_object json then AddedEntries (added_only_table json)
      else TextToService)"

section \<open>pdfGenerator.js: cells, truncation and footnotes\<close>

text \<open>
  \<^verbatim>\<open>function safeCell(v) { if (v === null || typeof v === 'undefined') return '';
    if (typeof v === 'string') return v;
    try { return JSON.stringify(v); } catch { return String(v); } }\<close>

  On the values left for the last line \<open>JSON.stringify\<close> returns a text and does not throw.
\<close>

fun safeCell :: "jsval \<Rightarrow> jsstring" where
  "safeCell JNull = []"
| "safeCell JUndefined = []"
| "safeCell (JStr s) = s"
| "safeCell v = (case stringify v of Some t \<Rightarrow> t | None \<Rightarrow> [])"

text \<open>
  \<open>JSON.parse\<close> on a text that starts and ends with a double quote: the text parses just
  when it is one JSON string literal, and the result is the string the literal denotes.
  \<open>unescape\<close> decodes what stands between the two quotes; \<open>None\<close> is the SyntaxError.
\<close>

definition hex_value :: "16 word \<Rightarrow> nat option" where
  "hex_value c =
     (if 0x30 \<le> c \<and> c \<le> 0x39 then Some (unat c - 48)
      else if 0x41 \<le> c \<and> c \<le> 0x46 then Some (unat c - 55)
      else if 0x61 \<le> c \<and> c \<le> 0x66 then Some (unat c - 87)
      else None)"

definition hex4 :: "16 word \<Rightarrow> 16 word \<Rightarrow> 16 word \<Rightarrow> 16 word \<Rightarrow> 16 word option" where
  "hex4 a b c d =
     (case (hex_value a, hex_value b, hex_value c, hex_value d) of
        (Some x, Some y, Some z, Some w) \<Rightarrow> Some (of_nat (4096 * x + 256 * y + 16 * z + w))
      | _ \<Rightarrow> None)"

definition simple_escape :: "16 word \<Rightarrow> 16 word option" where
  "simple_escape e =
     (if e = 0x22 then Some 0x22
      else if e = 0x5C then Some 0x5C
      else if e = 0x2F then Some 0x2F
      else if e = 0x62 then Some 0x08
      else if e = 0x66 then Some 0x0C
      else if e = 0x6E then Some 0x0A
      else if e = 0x72 then Some 0x0D
      else if e = 0x74 then Some 0x09
      else None)"

fun unescape :: "jsstring \<Rightarrow> jsstring option" where
  "unescape [] = Some []"
| "unescape (c # cs) =
     (if c = 0x22 \<or> c < 0x20 then None
      else if c = 0x5C then
        (case cs of
           [] \<Rightarrow> None
         | e # r \<Rightarrow>
             if e = 0x75 then
               (case r of
                  a # b # c' # d # r' \<Rightarrow>
                    (case hex4 a b c' d of
                       None \<Rightarrow> None
                     | Some u \<Rightarrow> map_option (Cons u) (unescape r'))
                | _ \<Rightarrow> None)
             else
               (case simple_escape e of
                  None \<Rightarrow> None
                | Some u \<Rightarrow> map_option (Cons u) (unescape r)))
      else map_option (Cons c) (unescape cs))"

definition JSON_parse_quoted :: "jsstring \<Rightarrow> jsstring option" where
  "JSON_parse_quoted s = unescape (butlast (tl s))"

text \<open>
  \<^verbatim>\<open>function dequote(str) { if (typeof str !== 'string') return str;
    if (str.length >= 2 && str.startsWith('"') && str.endsWith('"')) {
      try { return JSON.parse(str); } catch { return str.slice(1, -1); } }
    return str; }\<close>
\<close>

definition dequote :: "jsstring \<Rightarrow> jsstring" where
  "dequote s =
     (if length s \<ge> 2 \<and> take 1 s = [0x22] \<and> last s = 0x22 then
        (case JSON_parse_quoted s of Some t \<Rightarrow> t | None \<Rightarrow> butlast (tl s))
      else s)"

text \<open>\<open>text.slice(0, e)\<close>: a negative end counts from the end of the text.\<close>

definition slice_from_0 :: "jsstring \<Rightarrow> int \<Rightarrow> jsstring" where
  "slice_from_0 s e = (if e < 0 then take (nat (int (length s) + e)) s else take (nat e) s)"

text \<open>
  The string literal appended to a shortened text. In the source file it is the three
  characters U+00E2, U+20AC, U+00A6.
\<close>

definition ellipsis_literal :: jsstring where
  "ellipsis_literal = [0xE2, 0x20AC, 0xA6]"

record footnote =
  table :: jsval
  row :: nat
  col :: jsval
  full :: jsstring

text \<open>
  \<^verbatim>\<open>function safeCellTruncated(v, footnotes, maxLen, tableName, rowIdx, colIdx, colName) {
    let text = safeCell(v); text = dequote(text);
    if (typeof text !== 'string') text = String(text);
    if (text.length > maxLen) {
      const short = text.slice(0, maxLen - 1) + '...';
      footnotes.push({ table: tableName || 'Table', row: rowIdx + 1, col: colName || colIdx + 1, full: text });
      return short; }
    return text; }\<close>

  The array \<open>footnotes\<close> is passed in and returned with the text.
\<close>

definition safeCellTruncated ::
  "jsval \<Rightarrow> footnote list \<Rightarrow> int \<Rightarrow> jsval \<Rightarrow> nat \<Rightarrow> nat \<Rightarrow> jsval \<Rightarrow> jsstring \<times> footnote list" where
  "safeCellTruncated v footnotes maxLen tableName rowIdx colIdx colName =
     (let text = dequote (safeCell v) in
      if int (length text) > maxLen then
        (let short = slice_from_0 text (maxLen - 1) @ ellipsis_literal
         in (short,
             footnotes @ [\<lparr>table = (if truthy tableName then tableName else JStr (str ''Table'')),
                           row = rowIdx + 1,
                           col = (if truthy colName then colName else JNum (int colIdx + 1)),
                           full = text\<rparr>]))
      else (text, footnotes))"

section \<open>diffFlatten.js on values with identity: the store\<close>



















section \<open>Vocabulary for the properties of the table builders\<close>

text \<open>
  \<open>first_seen\<close> keeps the first occurrence of every element, in order. \<open>item_records\<close>
  are the records one item flattens to, \<open>records_of_file\<close> those of all items of one
  file, in input order; \<open>full_row\<close> is the row of a record in a full table and
  \<open>expected_map\<close> the grouping the handler is shown to build.
\<close>

definition first_seen :: "'a list \<Rightarrow> 'a list" where
  "first_seen xs = rev (remdups (rev xs))"





section \<open>Properties of the flattener\<close>

declare walkDelta.simps [simp del] arrayEntry.simps [simp del] objectEntry.simps [simp del]

lemma isObject_iff: "isObject d \<longleftrightarrow> (\<exists>kvs. d = JObj kvs)"
  by (cases d) (simp_all add: isObject_def)

lemma walkDelta_not_object: "\<not> isObject d \<Longrightarrow> walkDelta d pathArr acc = acc"
  by (simp add: walkDelta.simps)

lemma walkDelta_empty: "walkDelta (JObj []) pathArr acc = acc"
  by (simp add: walkDelta.simps)

text \<open>
  C9. Flattening \<open>null\<close> or \<open>undefined\<close>, and more generally any value that is not a
  mapping (an array, a number, a string, a boolean), returns the empty list of records;
  the function has no failing branch.
\<close>

theorem flattenJsonDiff_non_mapping:
  "\<not> isObject d \<Longrightarrow> flattenJsonDiff d = []"
  by (simp add: flattenJsonDiff_def walkDelta_not_object walkDelta_empty)

theorem flattenJsonDiff_non_mapping_witness:
  "\<not> isObject JNull \<and> flattenJsonDiff JNull = []
   \<and> \<not> isObject JUndefined \<and> flattenJsonDiff JUndefined = []
   \<and> \<not> isObject (JArr [JNull, JObj [(str ''a'', JArr [JNum 1])]])
   \<and> flattenJsonDiff (JArr [JNull, JObj [(str ''a'', JArr [JNum 1])]]) = []
   \<and> \<not> isObject (JNum 7) \<and> flattenJsonDiff (JNum 7) = []
   \<and> \<not> isObject (JStr (str ''x'')) \<and> flattenJsonDiff (JStr (str ''x'')) = []
   \<and> \<not> isObject (JBool True) \<and> flattenJsonDiff (JBool True) = []"
  using flattenJsonDiff_non_mapping [of JNull] flattenJsonDiff_non_mapping [of JUndefined]
    flattenJsonDiff_non_mapping [of "JArr [JNull, JObj [(str ''a'', JArr [JNum 1])]]"]
    flattenJsonDiff_non_mapping [of "JNum 7"] flattenJsonDiff_non_mapping [of "JStr (str ''x'')"]
    flattenJsonDiff_non_mapping [of "JBool True"]
  by (simp add: isObject_def)

lemma walkDelta_object_branch:
  "isObject d \<Longrightarrow> get_prop d (str ''_t'') \<noteq> JStr (str ''a'') \<Longrightarrow>
   walkDelta d p acc = fold (objectEntry d p) (Object_keys d) acc"
  by (simp add: walkDelta.simps)

lemma walkDelta_array_branch:
  "isObject d \<Longrightarrow> get_prop d (str ''_t'') = JStr (str ''a'') \<Longrightarrow>
   walkDelta d p acc = fold (arrayEntry d p) (Object_keys d) acc"
  by (simp add: walkDelta.simps)

lemma jsonify_json: "is_json v \<Longrightarrow> jsonify v = v"
proof (induction v)
  case (JArr xs)
  then show ?case by (simp add: list_all_iff map_idI)
next
  case (JObj kvs)
  have "filter (\<lambda>kv. snd kv \<noteq> JUndefined) kvs = kvs"
    using JObj.prems by (auto simp: list_all_iff filter_id_conv)
  moreover have "map (\<lambda>kv. (fst kv, jsonify (snd kv))) kvs = kvs"
    using JObj by (intro map_idI) (auto simp: list_all_iff snds.simps intro!: prod_eqI)
  ultimately show ?case by simp
qed simp_all

lemma clone_json: "is_json v \<Longrightarrow> clone v = v"
  by (cases v) (simp_all add: clone_def JSON_roundtrip_def jsonify_json del: jsonify.simps)

lemma clone_undefined: "clone JUndefined = JUndefined"
  by (simp add: clone_def JSON_roundtrip_def)

lemma objectEntry_three:
  assumes "key \<noteq> str ''_t''" and "get_prop delta key = JArr (b # m # l # rest)"
    and "is_json b" and "is_json m"
  shows "objectEntry delta pathArr key acc = acc @
     [\<lparr>path = join_dot (pathArr @ [key]), before = b,
       after = (if m = JNum 0 \<and> l = JNum 0 then JUndefined else m)\<rparr>]"
  using assms by (simp add: objectEntry.simps Let_def pushChange_def clone_json clone_undefined)

lemma fold_split: "fold f (pre @ key # post) acc = fold f post (f key (fold f pre acc))"
  by simp

text \<open>
  C1. In a node decoded as an object delta, a key other than the marker key whose value is
  an array of three or more elements contributes exactly one record, after the records
  of the keys before it: a removal (before = element 0, after absent) when elements 1 and
  2 are both the number 0, and otherwise a modification with elements 0 and 1 as before and
  after. The record values are clones, equal to the elements for JSON values. In particular
  \<open>{x: [9,0,0]}\<close> flattens to \<open>{path: "x", before: 9, after: absent}\<close> and
  \<open>{x: [9,1,2]}\<close> to \<open>{path: "x", before: 9, after: 1}\<close>.
\<close>

theorem object_delta_three_tuple:
  "(\<forall>delta pre key post b m l rest pathArr acc.
      isObject delta \<and> get_prop delta (str ''_t'') \<noteq> JStr (str ''a'')
      \<and> Object_keys delta = pre @ key # post \<and> key \<noteq> str ''_t''
      \<and> get_prop delta key = JArr (b # m # l # rest) \<and> is_json b \<and> is_json m
      \<longrightarrow> walkDelta delta pathArr acc =
            fold (objectEntry delta pathArr) post
              (fold (objectEntry delta pathArr) pre acc @
                 [\<lparr>path = join_dot (pathArr @ [key]), before = b,
                   after = (if m = JNum 0 \<and> l = JNum 0 then JUndefined else m)\<rparr>]))
   \<and> flattenJsonDiff (JObj [(str ''x'', JArr [JNum 9, JNum 0, JNum 0])]) =
        [\<lparr>path = str ''x'', before = JNum 9, after = JUndefined\<rparr>]
   \<and> flattenJsonDiff (JObj [(str ''x'', JArr [JNum 9, JNum 1, JNum 2])]) =
        [\<lparr>path = str ''x'', before = JNum 9, after = JNum 1\<rparr>]"
proof (intro conjI allI impI)
  fix delta pre key post b m l rest pathArr acc
  assume h: "isObject delta \<and> get_prop delta (str ''_t'') \<noteq> JStr (str ''a'')
      \<and> Object_keys delta = pre @ key # post \<and> key \<noteq> str ''_t''
      \<and> get_prop delta key = JArr (b # m # l # rest) \<and> is_json b \<and> is_json m"
  then have "walkDelta delta pathArr acc =
      fold (objectEntry delta pathArr) (pre @ key # post) acc"
    by (simp add: walkDelta_object_branch)
  also have "\<dots> = fold (objectEntry delta pathArr) post
      (objectEntry delta pathArr key (fold (objectEntry delta pathArr) pre acc))"
    by (rule fold_split)
  finally show "walkDelta delta pathArr acc =
            fold (objectEntry delta pathArr) post
              (fold (objectEntry delta pathArr) pre acc @
                 [\<lparr>path = join_dot (pathArr @ [key]), before = b,
                   after = (if m = JNum 0 \<and> l = JNum 0 then JUndefined else m)\<rparr>])"
    using h objectEntry_three [of key delta b m l rest] by simp
next
  show "flattenJsonDiff (JObj [(str ''x'', JArr [JNum 9, JNum 0, JNum 0])]) =
        [\<lparr>path = str ''x'', before = JNum 9, after = JUndefined\<rparr>]"
    by code_simp
next
  show "flattenJsonDiff (JObj [(str ''x'', JArr [JNum 9, JNum 1, JNum 2])]) =
        [\<lparr>path = str ''x'', before = JNum 9, after = JNum 1\<rparr>]"
    by code_simp
qed

theorem object_delta_three_tuple_witness:
  "walkDelta (JObj [(str ''w'', JArr [JNum 1, JNum 2]), (str ''x'', JArr [JNum 9, JNum 0, JNum 0]),
                    (str ''y'', JArr [JStr (str ''s''), JNum 0, JNum 2, JNull])]) [str ''r''] []
     = [\<lparr>path = str ''r.w'', before = JNum 1, after = JNum 2\<rparr>,
        \<lparr>path = str ''r.x'', before = JNum 9, after = JUndefined\<rparr>,
        \<lparr>path = str ''r.y'', before = JStr (str ''s''), after = JNum 0\<rparr>]"
proof -
  let ?d = "JObj [(str ''w'', JArr [JNum 1, JNum 2]), (str ''x'', JArr [JNum 9, JNum 0, JNum 0]),
                    (str ''y'', JArr [JStr (str ''s''), JNum 0, JNum 2, JNull])]"
  have "isObject ?d \<and> get_prop ?d (str ''_t'') \<noteq> JStr (str ''a'')
      \<and> Object_keys ?d = [str ''w''] @ str ''x'' # [str ''y''] \<and> str ''x'' \<noteq> str ''_t''
      \<and> get_prop ?d (str ''x'') = JArr (JNum 9 # JNum 0 # JNum 0 # []) \<and> is_json (JNum 9) \<and> is_json (JNum 0)"
    by (simp add: isObject_def str_def)
  from object_delta_three_tuple [THEN conjunct1, rule_format, OF this, of "[str ''r'']" "[]"]
  show ?thesis
    by (simp add: objectEntry.simps pushChange_def clone_def JSON_roundtrip_def str_def)
qed

lemma arrayEntry_get_prop:
  "get_prop d1 k1 = get_prop d2 k2 \<Longrightarrow> (k1 = str ''_t'') = (k2 = str ''_t'') \<Longrightarrow>
   replace_leading_underscore k1 = replace_leading_underscore k2 \<Longrightarrow>
   arrayEntry d1 p k1 acc = arrayEntry d2 p k2 acc"
  by (simp add: arrayEntry.simps)

lemma objectEntry_get_prop:
  "get_prop d1 k = get_prop d2 k \<Longrightarrow> objectEntry d1 p k acc = objectEntry d2 p k acc"
  by (simp add: objectEntry.simps)

lemma arrayEntry_marker: "arrayEntry d p (str ''_t'') acc = acc"
  by (simp add: arrayEntry.simps)

lemma objectEntry_marker: "objectEntry d p (str ''_t'') acc = acc"
  by (simp add: objectEntry.simps)

lemma fold_agree: "(\<And>x rs. x \<in> set xs \<Longrightarrow> f x rs = g x rs) \<Longrightarrow> fold f xs acc = fold g xs acc"
  by (induction xs arbitrary: acc) simp_all

lemma marker_value_decides:
  assumes "isObject d1" "isObject d2" "same_except_marker d1 d2"
    and "get_prop d1 (str ''_t'') = JStr (str ''a'') \<longleftrightarrow> get_prop d2 (str ''_t'') = JStr (str ''a'')"
  shows "walkDelta d1 p acc = walkDelta d2 p acc"
proof -
  have keys: "Object_keys d1 = Object_keys d2"
    and same: "\<And>k. k \<in> set (Object_keys d1) \<Longrightarrow> k \<noteq> str ''_t'' \<Longrightarrow> get_prop d1 k = get_prop d2 k"
    using assms(3) by (auto simp: same_except_marker_def list_all_iff)
  have a: "arrayEntry d1 p k rs = arrayEntry d2 p k rs" if "k \<in> set (Object_keys d1)" for k rs
    proof (cases "k = str ''_t''")
      case True then show ?thesis by (simp add: arrayEntry_marker)
    next
      case False with same [OF that] show ?thesis by (intro arrayEntry_get_prop) simp_all
    qed
  have b: "objectEntry d1 p k rs = objectEntry d2 p k rs" if "k \<in> set (Object_keys d1)" for k rs
    proof (cases "k = str ''_t''")
      case True then show ?thesis by (simp add: objectEntry_marker)
    next
      case False with same [OF that] show ?thesis by (intro objectEntry_get_prop) simp_all
    qed
  show ?thesis
  proof (cases "get_prop d1 (str ''_t'') = JStr (str ''a'')")
    case True
    with assms show ?thesis
      by (simp add: walkDelta_array_branch keys [symmetric] fold_agree [OF a])
  next
    case False
    with assms show ?thesis
      by (simp add: walkDelta_object_branch keys [symmetric] fold_agree [OF b])
  qed
qed

text \<open>
  C2, as amended. Whether a mapping-shaped node is decoded by the array-delta branch or
  by the object-delta branch is decided by the test \<open>delta._t === 'a'\<close> alone: the
  array branch runs exactly when the value under the key \<open>_t\<close> is the string \<open>"a"\<close>, and
  two nodes that agree on that test and on every other key flatten alike.
\<close>

theorem array_delta_decided_by_marker_value:
  "(\<forall>d p acc. isObject d \<and> get_prop d (str ''_t'') = JStr (str ''a'') \<longrightarrow>
       walkDelta d p acc = fold (arrayEntry d p) (Object_keys d) acc)
   \<and> (\<forall>d p acc. isObject d \<and> get_prop d (str ''_t'') \<noteq> JStr (str ''a'') \<longrightarrow>
       walkDelta d p acc = fold (objectEntry d p) (Object_keys d) acc)
   \<and> (\<forall>d1 d2 p acc. isObject d1 \<and> isObject d2 \<and> same_except_marker d1 d2
        \<and> (get_prop d1 (str ''_t'') = JStr (str ''a'') \<longleftrightarrow> get_prop d2 (str ''_t'') = JStr (str ''a''))
       \<longrightarrow> walkDelta d1 p acc = walkDelta d2 p acc)"
  using walkDelta_array_branch walkDelta_object_branch marker_value_decides by blast

text \<open>
  C2 as stated fails: both nodes below hold the marker key and agree on every other key,
  yet \<open>{_t: "a", _1: [7]}\<close> is decoded as an array delta (path \<open>1\<close>) and
  \<open>{_t: "b", _1: [7]}\<close> as an object delta (path \<open>_1\<close>).
\<close>

theorem marker_presence_counterexample:
  "isObject (JObj [(str ''_t'', JStr (str ''a'')), (str ''_1'', JArr [JNum 7])])
   \<and> isObject (JObj [(str ''_t'', JStr (str ''b'')), (str ''_1'', JArr [JNum 7])])
   \<and> has_key (JObj [(str ''_t'', JStr (str ''a'')), (str ''_1'', JArr [JNum 7])]) (str ''_t'')
   \<and> has_key (JObj [(str ''_t'', JStr (str ''b'')), (str ''_1'', JArr [JNum 7])]) (str ''_t'')
   \<and> same_except_marker (JObj [(str ''_t'', JStr (str ''a'')), (str ''_1'', JArr [JNum 7])])
        (JObj [(str ''_t'', JStr (str ''b'')), (str ''_1'', JArr [JNum 7])])
   \<and> flattenJsonDiff (JObj [(str ''_t'', JStr (str ''a'')), (str ''_1'', JArr [JNum 7])])
        = [\<lparr>path = str ''1'', before = JUndefined, after = JNum 7\<rparr>]
   \<and> flattenJsonDiff (JObj [(str ''_t'', JStr (str ''b'')), (str ''_1'', JArr [JNum 7])])
        = [\<lparr>path = str ''_1'', before = JUndefined, after = JNum 7\<rparr>]
   \<and> flattenJsonDiff (JObj [(str ''_t'', JStr (str ''a'')), (str ''_1'', JArr [JNum 7])])
        \<noteq> flattenJsonDiff (JObj [(str ''_t'', JStr (str ''b'')), (str ''_1'', JArr [JNum 7])])"
  by code_simp

theorem array_delta_decided_by_marker_value_witness:
  "walkDelta (JObj [(str ''_t'', JNum 1), (str ''k'', JArr [JNum 1, JNum 2, JNum 3])]) [] []
   = walkDelta (JObj [(str ''_t'', JStr (str ''b'')), (str ''k'', JArr [JNum 1, JNum 2, JNum 3])]) [] []
   \<and> walkDelta (JObj [(str ''_t'', JNum 1), (str ''k'', JArr [JNum 1, JNum 2, JNum 3])]) [] []
   = [\<lparr>path = str ''k'', before = JNum 1, after = JNum 2\<rparr>]
   \<and> walkDelta (JObj [(str ''_t'', JStr (str ''a'')), (str ''k'', JArr [JNum 1, JNum 2, JNum 3])]) [] [] = []"
proof -
  let ?d1 = "JObj [(str ''_t'', JNum 1), (str ''k'', JArr [JNum 1, JNum 2, JNum 3])]"
  let ?d2 = "JObj [(str ''_t'', JStr (str ''b'')), (str ''k'', JArr [JNum 1, JNum 2, JNum 3])]"
  let ?d3 = "JObj [(str ''_t'', JStr (str ''a'')), (str ''k'', JArr [JNum 1, JNum 2, JNum 3])]"
  have h: "isObject ?d1 \<and> isObject ?d2 \<and> same_except_marker ?d1 ?d2
        \<and> (get_prop ?d1 (str ''_t'') = JStr (str ''a'') \<longleftrightarrow> get_prop ?d2 (str ''_t'') = JStr (str ''a''))"
    by (simp add: isObject_def same_except_marker_def str_def)
  have h2: "isObject ?d1 \<and> get_prop ?d1 (str ''_t'') \<noteq> JStr (str ''a'')"
    by (simp add: isObject_def str_def)
  have h3: "isObject ?d3 \<and> get_prop ?d3 (str ''_t'') = JStr (str ''a'')"
    by (simp add: isObject_def str_def)
  note t = array_delta_decided_by_marker_value
  have e1: "walkDelta ?d1 [] [] = walkDelta ?d2 [] []"
    using t [THEN conjunct2, THEN conjunct2, rule_format, OF h, of "[]" "[]"] .
  have "walkDelta ?d1 [] [] = fold (objectEntry ?d1 []) (Object_keys ?d1) []"
    using t [THEN conjunct2, THEN conjunct1, rule_format, OF h2, of "[]" "[]"] .
  also have "\<dots> = [\<lparr>path = str ''k'', before = JNum 1, after = JNum 2\<rparr>]"
    by (simp add: objectEntry.simps pushChange_def clone_def JSON_roundtrip_def str_def)
  finally have e2: "walkDelta ?d1 [] [] = [\<lparr>path = str ''k'', before = JNum 1, after = JNum 2\<rparr>]" .
  have "walkDelta ?d3 [] [] = fold (arrayEntry ?d3 []) (Object_keys ?d3) []"
    using t [THEN conjunct1, rule_format, OF h3, of "[]" "[]"] .
  also have "\<dots> = []"
    by (simp add: arrayEntry.simps pushChange_def clone_def JSON_roundtrip_def str_def)
  finally have e3: "walkDelta ?d3 [] [] = []" .
  from e1 e2 e3 show ?thesis by blast
qed









section \<open>Properties of the table builders\<close>



lemma distinct_first_seen: "distinct (first_seen xs)"
  by (simp add: first_seen_def)














lemma flattenJsonDiff_or_empty:
  "flattenJsonDiff (if truthy json then json else JObj []) = flattenJsonDiff json"
  by (simp add: flattenJsonDiff_def)

text \<open>
  C8. In added-only mode the table has the columns \<open>[Path, New Value]\<close> and exactly one
  row for every flattened record whose before is absent, in order, and no other row; a
  delta with one addition and one modification gives the single row of the addition.
\<close>

theorem added_only_rows:
  "columns (added_only_table json) = [str ''Path'', str ''New Value'']
   \<and> rows (added_only_table json) =
       map (\<lambda>r. [JStr (path r), JSON_stringify (after r)])
         (filter (\<lambda>r. before r = JUndefined) (flattenJsonDiff json))
   \<and> length (rows (added_only_table json)) =
       length (filter (\<lambda>r. before r = JUndefined) (flattenJsonDiff json))
   \<and> (truthy json \<and> typeof_object json \<and> isDelta json \<longrightarrow>
        template_upload json = AddedEntries (added_only_table json))
   \<and> template_upload (JObj [(str ''a'', JArr [JNum 5]), (str ''b'', JArr [JNum 1, JNum 2])]) =
       AddedEntries \<lparr>name = str ''Added'', columns = [str ''Path'', str ''New Value''],
                     rows = [[JStr (str ''a''), JStr (str ''5'')]]\<rparr>"
proof (intro conjI)
  show "template_upload (JObj [(str ''a'', JArr [JNum 5]), (str ''b'', JArr [JNum 1, JNum 2])]) =
       AddedEntries \<lparr>name = str ''Added'', columns = [str ''Path'', str ''New Value''],
                     rows = [[JStr (str ''a''), JStr (str ''5'')]]\<rparr>"
    by code_simp
qed (simp_all add: added_only_table_def Let_def flattenJsonDiff_or_empty template_upload_def
       del: isDelta.simps)

theorem added_only_rows_witness:
  "template_upload (JObj [(str ''k'', JObj [(str ''_t'', JStr (str ''a'')), (str ''0'', JArr [JNum 1]),
                                            (str ''_1'', JArr [JNum 2, JNum 0, JNum 0])])])
   = AddedEntries \<lparr>name = str ''Added'', columns = [str ''Path'', str ''New Value''],
                   rows = [[JStr (str ''k.0''), JStr (str ''1'')]]\<rparr>"
proof -
  let ?j = "JObj [(str ''k'', JObj [(str ''_t'', JStr (str ''a'')), (str ''0'', JArr [JNum 1]),
                                    (str ''_1'', JArr [JNum 2, JNum 0, JNum 0])])]"
  have h: "truthy ?j \<and> typeof_object ?j \<and> isDelta ?j"
    by code_simp
  have "flattenJsonDiff ?j = [\<lparr>path = str ''k.0'', before = JUndefined, after = JNum 1\<rparr>,
                              \<lparr>path = str ''k.1'', before = JNum 2, after = JUndefined\<rparr>]"
    by code_simp
  moreover have "JSON_stringify (JNum 1) = JStr (str ''1'')"
    by code_simp
  moreover note added_only_rows [of ?j, THEN conjunct1]
    added_only_rows [of ?j, THEN conjunct2, THEN conjunct1]
  moreover have "name (added_only_table ?j) = str ''Added''"
    by (simp add: added_only_table_def Let_def)
  moreover have "template_upload ?j = AddedEntries (added_only_table ?j)"
    using added_only_rows [of ?j, THEN conjunct2, THEN conjunct2, THEN conjunct2, THEN conjunct1] h
    by blast
  ultimately have "template_upload ?j = AddedEntries (added_only_table ?j)
      \<and> added_only_table ?j = \<lparr>name = str ''Added'', columns = [str ''Path'', str ''New Value''],
                   rows = [[JStr (str ''k.0''), JStr (str ''1'')]]\<rparr>"
    by (simp add: table.equality)
  then show ?thesis by simp
qed

section \<open>The two flatteners compared\<close>

text \<open>
  On JSON deltas the missing fallback is the only difference between the two flatteners.
\<close>

lemma isObj_isObject: "isObj x = isObject x"
  by (simp add: isObj_def isObject_def)

lemma get_prop_json: "is_json d \<Longrightarrow> get_prop d k = JUndefined \<or> is_json (get_prop d k)"
proof (cases d)
  case (JObj kvs)
  assume j: "is_json d"
  show ?thesis
  proof (cases "map_of kvs k")
    case None
    with JObj show ?thesis by simp
  next
    case (Some v)
    then have "(k, v) \<in> set kvs" by (rule map_of_SomeD)
    with j JObj have "is_json v" by (auto simp: list_all_iff)
    with JObj Some show ?thesis by simp
  qed
qed simp_all

lemma get_prop_sentinel: "sentinel_only d \<Longrightarrow> sentinel_only (get_prop d k)"
proof (cases d)
  case (JObj kvs)
  assume j: "sentinel_only d"
  show ?thesis
  proof (cases "map_of kvs k")
    case None
    with JObj show ?thesis by simp
  next
    case (Some v)
    then have "(k, v) \<in> set kvs" by (rule map_of_SomeD)
    with j JObj have "sentinel_only v" by (auto simp: list_all_iff)
    with JObj Some show ?thesis by simp
  qed
qed simp_all

lemma clone_at: "is_json e \<Longrightarrow> i < arr_length e \<Longrightarrow> clone (at e i) = at e i"
  by (cases e) (auto simp: list_all_length intro: clone_json)


lemma flatteners_agree:
  "is_json d \<Longrightarrow> sentinel_only d \<Longrightarrow> walk d p acc = walkDelta d p acc"
  "is_json d \<Longrightarrow> sentinel_only d \<Longrightarrow> walk_array_entry d p k acc = arrayEntry d p k acc"
  "is_json d \<Longrightarrow> sentinel_only d \<Longrightarrow> walk_object_entry d p k acc = objectEntry d p k acc"
proof (induction d p acc and d p k acc and d p k acc rule: walkDelta_arrayEntry_objectEntry.induct)
  case (1 delta pathArr acc)
  show ?case
  proof (cases "isObject delta")
    case False
    then show ?thesis by (simp add: walkDelta.simps isObj_isObject)
  next
    case True
    show ?thesis
    proof (cases "get_prop delta (str ''_t'') = JStr (str ''a'')")
      case marker: True
      have "fold (walk_array_entry delta pathArr) (Object_keys delta) acc
          = fold (arrayEntry delta pathArr) (Object_keys delta) acc"
      proof (rule fold_agree)
        fix k rs assume "k \<in> set (Object_keys delta)"
        with True marker "1.prems" show "walk_array_entry delta pathArr k rs = arrayEntry delta pathArr k rs"
          by (intro "1.IH"(1)) simp_all
      qed
      with True marker show ?thesis by (simp add: walkDelta.simps isObj_isObject)
    next
      case nomarker: False
      have "fold (walk_object_entry delta pathArr) (Object_keys delta) acc
          = fold (objectEntry delta pathArr) (Object_keys delta) acc"
      proof (rule fold_agree)
        fix k rs assume "k \<in> set (Object_keys delta)"
        with True nomarker "1.prems" show "walk_object_entry delta pathArr k rs = objectEntry delta pathArr k rs"
          by (intro "1.IH"(2)) simp_all
      qed
      with True nomarker show ?thesis by (simp add: walkDelta.simps isObj_isObject)
    qed
  qed
next
  case (2 delta pathArr key acc)
  let ?e = "get_prop delta key"
  have j: "?e = JUndefined \<or> is_json ?e" using "2.prems"(1) by (rule get_prop_json)
  have s: "sentinel_only ?e" using "2.prems"(2) by (rule get_prop_sentinel)
  show ?case
  proof (cases "Array_isArray ?e")
    case True
    with j have "is_json ?e" by auto
    with True show ?thesis
      by (simp add: arrayEntry.simps Let_def pushChange_def clone_at clone_undefined)
  next
    case False
    show ?thesis
    proof (cases "isObject ?e")
      case obj: True
      with j have je: "is_json ?e" by (auto simp: isObject_def)
      have "key \<noteq> str ''_t'' \<Longrightarrow>
          walk ?e (pathArr @ [replace_leading_underscore key]) acc
          = walkDelta ?e (pathArr @ [replace_leading_underscore key]) acc"
        using False obj je s by (intro "2.IH") simp_all
      with False obj show ?thesis
        by (simp add: arrayEntry.simps Let_def isObj_isObject)
    next
      case nobj: False
      with False show ?thesis by (simp add: arrayEntry.simps Let_def isObj_isObject)
    qed
  qed
next
  case (3 delta pathArr key acc)
  let ?e = "get_prop delta key"
  have j: "?e = JUndefined \<or> is_json ?e" using "3.prems"(1) by (rule get_prop_json)
  have s: "sentinel_only ?e" using "3.prems"(2) by (rule get_prop_sentinel)
  show ?case
  proof (cases "Array_isArray ?e")
    case True
    with j have je: "is_json ?e" by auto
    from True obtain xs where xs: "?e = JArr xs" by (cases ?e) auto
    with s have sent: "3 \<le> arr_length ?e \<Longrightarrow> at ?e 1 = JNum 0 \<and> at ?e 2 = JNum 0"
      by simp
    have c: "clone (at ?e i) = at ?e i" if "i < arr_length ?e" for i
      using je that by (rule clone_at)
    from True sent show ?thesis
      by (simp add: objectEntry.simps Let_def pushChange_def c clone_undefined)
  next
    case False
    show ?thesis
    proof (cases "isObject ?e")
      case obj: True
      with j have je: "is_json ?e" by (auto simp: isObject_def)
      have "key \<noteq> str ''_t'' \<Longrightarrow>
          walk ?e (pathArr @ [key]) acc = walkDelta ?e (pathArr @ [key]) acc"
        using False obj je s by (intro "3.IH") simp_all
      with False obj show ?thesis
        by (simp add: objectEntry.simps Let_def isObj_isObject)
    next
      case nobj: False
      with False show ?thesis by (simp add: objectEntry.simps Let_def isObj_isObject)
    qed
  qed
qed

lemma flattenDelta_agrees_without_fallback:
  "is_json d \<Longrightarrow> sentinel_only d \<Longrightarrow> flattenDelta d = flattenJsonDiff d"
  by (simp add: flattenDelta_def flattenJsonDiff_def flatteners_agree(1) del: walk.simps)

text \<open>
  C4. The two flatteners differ on \<open>{x: [9,1,2]}\<close>: \<open>flattenJsonDiff\<close> falls back to a
  modification record, \<open>flattenDelta\<close> has no such branch and emits nothing.
\<close>

theorem flattenDelta_misses_fallback:
  "flattenJsonDiff (JObj [(str ''x'', JArr [JNum 9, JNum 1, JNum 2])])
     = [\<lparr>path = str ''x'', before = JNum 9, after = JNum 1\<rparr>]
   \<and> flattenDelta (JObj [(str ''x'', JArr [JNum 9, JNum 1, JNum 2])]) = []"
  by code_simp

section \<open>Properties of the cell renderer\<close>

lemma unescape_plain:
  "\<forall>c \<in> set cs. c \<noteq> 0x22 \<and> c \<noteq> 0x5C \<and> \<not> c < 0x20 \<Longrightarrow> unescape cs = Some cs"
  by (induction cs) simp_all

lemma dequote_quoted_plain:
  assumes "\<forall>c \<in> set cs. c \<noteq> 0x22 \<and> c \<noteq> 0x5C \<and> \<not> c < 0x20"
  shows "dequote (0x22 # cs @ [0x22]) = cs"
  using assms by (simp add: dequote_def JSON_parse_quoted_def unescape_plain butlast_append)

text \<open>
  C5, as amended. The display text of a cell is its stringification with one layer of JSON
  quoting removed. When the display text is longer than \<open>maxLen\<close>, the call returns the
  slice of the display text up to \<open>maxLen - 1\<close> (its first \<open>maxLen - 1\<close> characters when
  \<open>maxLen\<close> is positive) followed by the ellipsis literal, and appends exactly one footnote:
  \<open>full\<close> is the whole display text, \<open>row\<close> the row index plus one, \<open>col\<close> the
  column name (the column index plus one when the name is empty or missing), \<open>table\<close> the
  table name (\<open>Table\<close> when it is empty or missing). Otherwise the display text is
  returned as it is and no footnote is appended.
\<close>

theorem safeCellTruncated_display_text:
  "(maxLen < int (length (dequote (safeCell v))) \<longrightarrow>
      safeCellTruncated v footnotes maxLen tableName rowIdx colIdx colName =
        (slice_from_0 (dequote (safeCell v)) (maxLen - 1) @ ellipsis_literal,
         footnotes @ [\<lparr>table = (if truthy tableName then tableName else JStr (str ''Table'')),
                       row = rowIdx + 1,
                       col = (if truthy colName then colName else JNum (int colIdx + 1)),
                       full = dequote (safeCell v)\<rparr>]))
   \<and> (1 \<le> maxLen \<longrightarrow>
        slice_from_0 (dequote (safeCell v)) (maxLen - 1) = take (nat maxLen - 1) (dequote (safeCell v)))
   \<and> (int (length (dequote (safeCell v))) \<le> maxLen \<longrightarrow>
        safeCellTruncated v footnotes maxLen tableName rowIdx colIdx colName
          = (dequote (safeCell v), footnotes))"
  by (auto simp: safeCellTruncated_def Let_def slice_from_0_def nat_diff_distrib)

text \<open>
  C5 as stated fails twice at \<open>maxLen = 140\<close>. A cell that is a JSON-quoted string of 141
  characters is longer than \<open>maxLen\<close>, but its display text has 139 characters: it is
  returned whole, with no footnote. A cell of 141 plain characters is shortened to 139
  characters followed by the three characters of the ellipsis literal: 142, not 140.
\<close>

theorem safeCellTruncated_counterexample:
  "int (length (safeCell (JStr (0x22 # replicate 139 0x61 @ [0x22])))) > 140
   \<and> safeCellTruncated (JStr (0x22 # replicate 139 0x61 @ [0x22])) [] 140
         (JStr (str ''a.json'')) 0 1 (JStr (str ''Old Value''))
       = (replicate 139 0x61, [])
   \<and> int (length (safeCell (JStr (replicate 141 0x61)))) > 140
   \<and> length (fst (safeCellTruncated (JStr (replicate 141 0x61)) [] 140
         (JStr (str ''a.json'')) 0 1 (JStr (str ''Old Value'')))) = 142"
proof -
  have plain: "\<forall>c \<in> set (replicate 139 (0x61 :: 16 word)). c \<noteq> 0x22 \<and> c \<noteq> 0x5C \<and> \<not> c < 0x20"
    by simp
  have dq: "dequote (0x22 # replicate 139 0x61 @ [0x22]) = replicate 139 0x61"
    by (rule dequote_quoted_plain [OF plain])
  have dq2: "dequote (replicate 141 0x61) = replicate 141 0x61"
    by (simp add: dequote_def)
  show ?thesis
    by (simp add: safeCellTruncated_def dq dq2 slice_from_0_def ellipsis_literal_def)
qed

theorem safeCellTruncated_display_text_witness:
  "safeCellTruncated (JStr (0x22 # str ''abcdef'' @ [0x22])) [] 4 (JStr (str ''a.json'')) 2 1 (JStr (str ''Old Value''))
     = (str ''abc'' @ ellipsis_literal,
        [\<lparr>table = JStr (str ''a.json''), row = 3, col = JStr (str ''Old Value''), full = str ''abcdef''\<rparr>])
   \<and> safeCellTruncated (JArr [JNum 1, JNum 2]) [] 5 JUndefined 0 1 (JStr [])
     = (str ''[1,2]'', [])"
proof -
  have d1: "dequote (safeCell (JStr (0x22 # str ''abcdef'' @ [0x22]))) = str ''abcdef''"
    by (simp add: dequote_def JSON_parse_quoted_def str_def)
  have d2: "dequote (safeCell (JArr [JNum 1, JNum 2])) = str ''[1,2]''"
    by code_simp
  note t = safeCellTruncated_display_text
  have a: "safeCellTruncated (JStr (0x22 # str ''abcdef'' @ [0x22])) [] 4 (JStr (str ''a.json'')) 2 1 (JStr (str ''Old Value''))
     = (slice_from_0 (str ''abcdef'') (4 - 1) @ ellipsis_literal,
         [] @ [\<lparr>table = JStr (str ''a.json''), row = 2 + 1, col = JStr (str ''Old Value''), full = str ''abcdef''\<rparr>])"
    using t [of 4 "JStr (0x22 # str ''abcdef'' @ [0x22])" "[]" "JStr (str ''a.json'')" 2 1 "JStr (str ''Old Value'')", THEN conjunct1]
    unfolding d1 by (simp add: str_def)
  have b: "safeCellTruncated (JArr [JNum 1, JNum 2]) [] 5 JUndefined 0 1 (JStr []) = (str ''[1,2]'', [])"
    using t [of 5 "JArr [JNum 1, JNum 2]" "[]" JUndefined 0 1 "JStr []", THEN conjunct2, THEN conjunct2]
    unfolding d2 by (simp add: str_def)
  have c: "slice_from_0 (str ''abcdef'') (4 - 1) = str ''abc''"
    by (simp add: slice_from_0_def str_def)
  from a b c show ?thesis by simp
qed

section \<open>Properties of clone on the store\<close>




























section \<open>Determinism\<close>





end
